theory Spec2Isabelle
  imports Complex_Main
begin

section \<open>Strings\<close>

text \<open>
  A Python \<^verbatim>\<open>str\<close> is a sequence of Unicode code points, so it is modelled as a list
  of naturals: equality, \<^verbatim>\<open>in\<close>, \<^verbatim>\<open>strip\<close> and \<^verbatim>\<open>splitlines\<close> all work on code
  points. \<open>ascii\<close> embeds an ASCII literal.
\<close>

type_synonym str = "nat list"

definition ascii :: "string \<Rightarrow> str" where
  "ascii s = map of_char s"

text \<open>The tokens of \<^verbatim>\<open>ptt_crawler.py\<close> that are not ASCII, as code points.\<close>

definition BAO :: str where \<comment> \<open>U+7206, the "maximum" popularity token\<close>
  "BAO = [0x7206]"

definition TOKEN_TITLE :: str where \<comment> \<open>U+6A19 U+984C\<close>
  "TOKEN_TITLE = [0x6A19, 0x984C]"

definition TOKEN_AUTHOR :: str where \<comment> \<open>U+4F5C U+8005\<close>
  "TOKEN_AUTHOR = [0x4F5C, 0x8005]"

definition TOKEN_BOARD :: str where \<comment> \<open>U+770B U+677F\<close>
  "TOKEN_BOARD = [0x770B, 0x677F]"

definition TOKEN_TIME :: str where \<comment> \<open>U+6642 U+9593\<close>
  "TOKEN_TIME = [0x6642, 0x9593]"

definition is_digit :: "nat \<Rightarrow> bool" where \<comment> \<open>an ASCII digit, as the parser of pandas reads\<close>
  "is_digit c = (48 \<le> c \<and> c \<le> 57)"

definition digits_val :: "str \<Rightarrow> nat" where \<comment> \<open>the number a string of ASCII digits denotes\<close>
  "digits_val ds = foldl (\<lambda>a c. 10 * a + (c - 48)) 0 ds"

fun str_nat :: "nat \<Rightarrow> str" where
  "str_nat n = (if n < 10 then [48 + n] else str_nat (n div 10) @ [48 + n mod 10])"

definition str_int :: "int \<Rightarrow> str" where \<comment> \<open>the text an f-string gives an \<^verbatim>\<open>int\<close>\<close>
  "str_int i = (if i < 0 then 45 # str_nat (nat (- i)) else str_nat (nat i))"

section \<open>Configuration\<close>

definition BOARD_NAME :: str where
  "BOARD_NAME = ascii ''stock''"

definition BASE_URL :: str where
  "BASE_URL = ascii ''https://www.ptt.cc''"

definition BOARD_URL :: str where
  "BOARD_URL = ascii ''https://www.ptt.cc/bbs/'' @ BOARD_NAME @ ascii ''/index.html''"

definition DEFAULT_THRESHOLD :: int where
  "DEFAULT_THRESHOLD = 40"

section \<open>The numeric conversion of the popularity column\<close>

text \<open>
  \<^verbatim>\<open>pd.to_numeric(..., errors="coerce")\<close> belongs to pandas, not to the repository. Its
  string parser reads optional ASCII white space, an optional sign, ASCII decimal digits
  with an optional fraction and an optional exponent, and optional trailing white space,
  and besides these the words for infinity and not-a-number; any other string is coerced
  to \<open>NaN\<close>. \<open>parse_decimal\<close> is that grammar: it gives the sign, the digits of integer
  part and fraction, and the power of ten they are scaled by.

  pandas stores the number read as a 64-bit integer or a 64-bit float. The model holds a
  finite value \<open>Fin q\<close> only where both hold the number \<open>q\<close> exactly, whatever the other
  cells of the column are and whichever of its float parsers pandas runs: the text has at
  most 15 digits, is scaled by at most 22 powers of ten, and denotes a number whose
  denominator is a power of two (\<open>exactly_held\<close>). For any other numeric text (a longer
  numeral, a larger exponent, a fraction such as \<^verbatim>\<open>"0.1"\<close>) and for a text with a NUL
  character, the value pandas stores (a rounded float, an infinity, \<open>NaN\<close>) is not
  computed here: it is the parameter \<open>lib\<close> of the model, applied to the text. It stands
  for one call on one column, where equal texts get equal values; every theorem holds for
  every \<open>lib\<close>.
\<close>

datatype numeric = NaN | Fin rat | PInf | NInf

type_synonym decimal = "bool \<times> str \<times> int"

definition isspace_ascii :: "nat \<Rightarrow> bool" where
  "isspace_ascii c = (c = 32 \<or> (9 \<le> c \<and> c \<le> 13))"

definition take_sign :: "str \<Rightarrow> bool \<times> str" where
  "take_sign s = (case s of
       [] \<Rightarrow> (False, [])
     | c # r \<Rightarrow> if c = 45 then (True, r) else if c = 43 then (False, r) else (False, s))"

definition take_exponent :: "str \<Rightarrow> (int \<times> str) option" where
  "take_exponent s = (case s of
       [] \<Rightarrow> None
     | c # r \<Rightarrow>
         if c = 101 \<or> c = 69 then
           (let (neg, q) = take_sign r; ds = takeWhile is_digit q in
            if ds = [] then None
            else Some ((if neg then - int (digits_val ds) else int (digits_val ds)),
                       dropWhile is_digit q))
         else None)"

definition parse_decimal :: "str \<Rightarrow> decimal option" where
  "parse_decimal s =
     (let (neg, p2) = take_sign (dropWhile isspace_ascii s);
          ip = takeWhile is_digit p2;
          p3 = dropWhile is_digit p2;
          has_dot = (p3 \<noteq> [] \<and> hd p3 = 46);
          fp = (if has_dot then takeWhile is_digit (tl p3) else []);
          p4 = (if has_dot then dropWhile is_digit (tl p3) else p3)
      in if ip = [] \<and> fp = [] then None
         else
           (let (e, p5) = (case take_exponent p4 of None \<Rightarrow> (0, p4) | Some (e, r) \<Rightarrow> (e, r))
            in if dropWhile isspace_ascii p5 \<noteq> [] then None
               else Some (neg, ip @ fp, e - int (length fp))))"

definition decimal_value :: "decimal \<Rightarrow> rat" where
  \<comment> \<open>the number the text denotes\<close>
  "decimal_value d =
     (case d of (neg, ds, e10) \<Rightarrow>
        (let m = of_nat (digits_val ds) * (10::rat) powi e10 in if neg then - m else m))"

definition exactly_held :: "decimal \<Rightarrow> bool" where
  "exactly_held d =
     (case d of (neg, ds, e10) \<Rightarrow>
        length ds \<le> 15 \<and> \<bar>e10\<bar> \<le> 22 \<and>
        (case quotient_of (decimal_value d) of
           (m, k) \<Rightarrow> \<bar>m\<bar> < 2 ^ 53 \<and> k dvd 2 ^ 22))"

definition lower_ascii :: "str \<Rightarrow> str" where
  "lower_ascii s = map (\<lambda>c. if 65 \<le> c \<and> c \<le> 90 then c + 32 else c) s"

definition POS_INF_WORDS :: "str list" where
  "POS_INF_WORDS = [ascii ''inf'', ascii ''+inf'', ascii ''infinity'', ascii ''+infinity'']"

definition NEG_INF_WORDS :: "str list" where
  "NEG_INF_WORDS = [ascii ''-inf'', ascii ''-infinity'']"

definition floatify :: "(str \<Rightarrow> numeric) \<Rightarrow> str \<Rightarrow> numeric" where
  "floatify lib s =
     (case parse_decimal s of
        Some d \<Rightarrow> if exactly_held d then Fin (decimal_value d) else lib s
      | None \<Rightarrow>
          (let w = lower_ascii s in
           if w \<in> set POS_INF_WORDS then PInf
           else if w \<in> set NEG_INF_WORDS then NInf
           else NaN))"

definition to_numeric :: "(str \<Rightarrow> numeric) \<Rightarrow> str \<Rightarrow> numeric" where
  "to_numeric lib s =
     (if s = [] then NaN else if 0 \<in> set s then lib s else floatify lib s)"

definition fillna :: "numeric \<Rightarrow> numeric" where
  "fillna v = (case v of NaN \<Rightarrow> Fin 0 | _ \<Rightarrow> v)"

definition ge_threshold :: "numeric \<Rightarrow> int \<Rightarrow> bool" where
  "ge_threshold v t = (case v of
       NaN \<Rightarrow> False
     | Fin q \<Rightarrow> of_int t \<le> q
     | PInf \<Rightarrow> True
     | NInf \<Rightarrow> False)"

section \<open>Listings and frames\<close>

record listing =
  title :: str
  date :: str
  link :: str
  nrec :: str

text \<open>
  \<^verbatim>\<open>pd.DataFrame(records)\<close> of a list of dictionaries has the four columns when there
  is a record, and no column at all when the list is empty (as has \<^verbatim>\<open>pd.DataFrame()\<close>).
  A frame obtained by a boolean mask keeps its columns, also when no row is left.
\<close>

datatype 'a dataframe = No_Columns | Frame "'a list"

definition DataFrame :: "'a list \<Rightarrow> 'a dataframe" where
  "DataFrame rs = (if rs = [] then No_Columns else Frame rs)"

datatype error = KeyError | ValueError

section \<open>Popularity filter\<close>

definition replace_sentinels :: "str \<Rightarrow> str" where
  \<comment> \<open>\<^verbatim>\<open>.replace({BAO: "100", "X": "-1"})\<close>: whole values only\<close>
  "replace_sentinels s =
     (if s = BAO then ascii ''100'' else if s = ascii ''X'' then ascii ''-1'' else s)"

definition popularity_score :: "(str \<Rightarrow> numeric) \<Rightarrow> str \<Rightarrow> numeric" where
  "popularity_score lib s = fillna (to_numeric lib (replace_sentinels s))"

definition or_default :: "int option \<Rightarrow> int" where
  \<comment> \<open>\<^verbatim>\<open>threshold or CONFIG["DEFAULT_THRESHOLD"]\<close>: \<^verbatim>\<open>None\<close> and \<^verbatim>\<open>0\<close> are falsy\<close>
  "or_default threshold =
     (case threshold of None \<Rightarrow> DEFAULT_THRESHOLD
      | Some t \<Rightarrow> if t = 0 then DEFAULT_THRESHOLD else t)"

definition process_recommendations ::
  "(str \<Rightarrow> numeric) \<Rightarrow> listing dataframe \<Rightarrow> int option \<Rightarrow> error + listing dataframe" where
  "process_recommendations lib df threshold =
     (let t = or_default threshold in
      case df of
        No_Columns \<Rightarrow> Inl KeyError
      | Frame rows \<Rightarrow>
          Inr (Frame (filter (\<lambda>r. ge_threshold (popularity_score lib (nrec r)) t) rows)))"

text \<open>
  \<^verbatim>\<open>process_and_save_data\<close> substitutes the default once more, names the file after
  the threshold in use, filters and overwrites the file. The result is the file name, the
  frame written to it and returned.
\<close>

definition process_and_save_data ::
  "(str \<Rightarrow> numeric) \<Rightarrow> listing dataframe \<Rightarrow> int option \<Rightarrow> str option
     \<Rightarrow> error + (str \<times> listing dataframe)" where
  "process_and_save_data lib df threshold filename =
     (let t = or_default threshold;
          fname = (case filename of
                     None \<Rightarrow> BOARD_NAME @ ascii ''_above_'' @ str_int t @ ascii ''_rec.csv''
                   | Some f \<Rightarrow> f)
      in case process_recommendations lib df (Some t) of
           Inl e \<Rightarrow> Inl e
         | Inr filtered_df \<Rightarrow> Inr (fname, filtered_df))"

section \<open>String operations of Python\<close>

definition is_space :: "nat \<Rightarrow> bool" where
  \<comment> \<open>\<^verbatim>\<open>str.isspace\<close>, which \<^verbatim>\<open>strip()\<close> and the pattern \<^verbatim>\<open>\s\<close> use\<close>
  "is_space c = ((9 \<le> c \<and> c \<le> 13) \<or> (28 \<le> c \<and> c \<le> 32) \<or> c = 0x85 \<or> c = 0xA0
      \<or> c = 0x1680 \<or> (0x2000 \<le> c \<and> c \<le> 0x200A) \<or> c = 0x2028 \<or> c = 0x2029
      \<or> c = 0x202F \<or> c = 0x205F \<or> c = 0x3000)"

definition is_linebreak :: "nat \<Rightarrow> bool" where
  \<comment> \<open>the line boundaries of \<^verbatim>\<open>str.splitlines\<close>\<close>
  "is_linebreak c = ((10 \<le> c \<and> c \<le> 13) \<or> (28 \<le> c \<and> c \<le> 30) \<or> c = 0x85
      \<or> c = 0x2028 \<or> c = 0x2029)"

definition strip :: "str \<Rightarrow> str" where
  "strip s = rev (dropWhile is_space (rev (dropWhile is_space s)))"

fun splitlines_from :: "str \<Rightarrow> str \<Rightarrow> str list" where
  "splitlines_from cur [] = (if cur = [] then [] else [cur])"
| "splitlines_from cur [c] =
     (if is_linebreak c then [cur] else [cur @ [c]])"
| "splitlines_from cur (c # d # cs) =
     (if c = 13 \<and> d = 10 then cur # splitlines_from [] cs
      else if is_linebreak c then cur # splitlines_from [] (d # cs)
      else splitlines_from (cur @ [c]) (d # cs))"

definition splitlines :: "str \<Rightarrow> str list" where
  "splitlines s = splitlines_from [] s"

fun split_from :: "str \<Rightarrow> str \<Rightarrow> str list" where
  \<comment> \<open>the maximal runs of characters that are not white space\<close>
  "split_from cur [] = (if cur = [] then [] else [cur])"
| "split_from cur (c # cs) =
     (if is_space c then (if cur = [] then split_from [] cs else cur # split_from [] cs)
      else split_from (cur @ [c]) cs)"

definition startswith :: "str \<Rightarrow> str \<Rightarrow> bool" where
  "startswith s p = (take (length p) s = p)"

fun contains :: "str \<Rightarrow> str \<Rightarrow> bool" where \<comment> \<open>\<^verbatim>\<open>sub in s\<close>\<close>
  "contains sub [] = (sub = [])"
| "contains sub (c # cs) = (startswith (c # cs) sub \<or> contains sub cs)"

fun join :: "str \<Rightarrow> str list \<Rightarrow> str" where
  "join sep [] = []"
| "join sep [x] = x"
| "join sep (x # y # r) = x @ sep @ join sep (y # r)"

section \<open>Documents\<close>

text \<open>
  The HTML parser is a library. A document is the tree it builds: text and tags, a tag
  with its name, its attribute dictionary (an association list, read with \<open>map_of\<close>)
  and its children. Comments and the text of script and style elements, which
  \<^verbatim>\<open>get_text\<close> leaves out, are not part of the tree.
\<close>

datatype node = NavigableString str | Tag str "(str \<times> str) list" "node list"

definition has_class :: "(str \<times> str) list \<Rightarrow> str \<Rightarrow> bool" where
  "has_class attrs c =
     (case map_of attrs (ascii ''class'') of
        None \<Rightarrow> False
      | Some v \<Rightarrow> c \<in> set (split_from [] v))"

text \<open>\<^verbatim>\<open>select_one("div#main-content")\<close>: the first such tag in document order.\<close>

fun select_main :: "node \<Rightarrow> node option"
  and select_main_list :: "node list \<Rightarrow> node option" where
  "select_main (NavigableString s) = None"
| "select_main (Tag n attrs cs) =
     (if n = ascii ''div'' \<and> map_of attrs (ascii ''id'') = Some (ascii ''main-content'')
      then Some (Tag n attrs cs) else select_main_list cs)"
| "select_main_list [] = None"
| "select_main_list (x # xs) =
     (case select_main x of Some m \<Rightarrow> Some m | None \<Rightarrow> select_main_list xs)"

text \<open>
  \<^verbatim>\<open>select_one("div.btn-group-paging a.btn.wide:nth-child(2)")\<close>: the first tag in
  document order that is an \<^verbatim>\<open>a\<close> of classes \<^verbatim>\<open>btn\<close> and \<^verbatim>\<open>wide\<close>, is the second tag
  among the children of its parent, and lies inside a \<^verbatim>\<open>div\<close> of class
  \<^verbatim>\<open>btn-group-paging\<close>. \<open>inside\<close> says that such a \<^verbatim>\<open>div\<close> is an ancestor, \<open>k\<close> counts
  the tags among the siblings so far.
\<close>

fun select_prev :: "bool \<Rightarrow> nat \<Rightarrow> node \<Rightarrow> node option"
  and select_prev_list :: "bool \<Rightarrow> nat \<Rightarrow> node list \<Rightarrow> node option" where
  "select_prev inside k (NavigableString s) = None"
| "select_prev inside k (Tag n attrs cs) =
     (if inside \<and> n = ascii ''a'' \<and> has_class attrs (ascii ''btn'')
         \<and> has_class attrs (ascii ''wide'') \<and> k = 2
      then Some (Tag n attrs cs)
      else select_prev_list
             (inside \<or> (n = ascii ''div'' \<and> has_class attrs (ascii ''btn-group-paging''))) 0 cs)"
| "select_prev_list inside k [] = None"
| "select_prev_list inside k (NavigableString s # xs) = select_prev_list inside k xs"
| "select_prev_list inside k (Tag n attrs cs # xs) =
     (case select_prev inside (Suc k) (Tag n attrs cs) of
        Some m \<Rightarrow> Some m
      | None \<Rightarrow> select_prev_list inside (Suc k) xs)"

text \<open>\<^verbatim>\<open>get_text(separator)\<close> joins the strings of the tree in document order.\<close>

fun strings :: "node \<Rightarrow> str list"
  and strings_list :: "node list \<Rightarrow> str list" where
  "strings (NavigableString s) = [s]"
| "strings (Tag n attrs cs) = strings_list cs"
| "strings_list [] = []"
| "strings_list (x # xs) = strings x @ strings_list xs"

text \<open>\<^verbatim>\<open>[a["href"] for a in find_all("a", href=True)]\<close> over the descendants.\<close>

fun hrefs :: "node \<Rightarrow> str list"
  and hrefs_list :: "node list \<Rightarrow> str list" where
  "hrefs (NavigableString s) = []"
| "hrefs (Tag n attrs cs) =
     (if n = ascii ''a'' then (case map_of attrs (ascii ''href'') of None \<Rightarrow> [] | Some h \<Rightarrow> [h])
      else []) @ hrefs_list cs"
| "hrefs_list [] = []"
| "hrefs_list (x # xs) = hrefs x @ hrefs_list xs"

definition is_decoration :: "node \<Rightarrow> bool" where
  \<comment> \<open>matched by \<^verbatim>\<open>find_all(["div", "span"], recursive=False)\<close>\<close>
  "is_decoration x =
     (case x of NavigableString s \<Rightarrow> False
      | Tag n attrs cs \<Rightarrow> n = ascii ''div'' \<or> n = ascii ''span'')"

section \<open>Fetcher\<close>

text \<open>
  The transport is a library: \<^verbatim>\<open>requests.get\<close> raises or gives a response. A response
  carries its status and the tree that parsing its text gives.
\<close>

datatype request_exception = ConnectionError | Timeout | SSLError | Other_Exception

record response =
  status_code :: nat
  soup :: "node list"

type_synonym headers = "(str \<times> str) list"
type_synonym web = "str \<Rightarrow> headers \<Rightarrow> request_exception + response"

definition HEADERS :: headers where
  "HEADERS = [(ascii ''User-Agent'', ascii ''Mozilla/5.0'')]"

definition or_headers :: "headers option \<Rightarrow> headers" where
  \<comment> \<open>\<^verbatim>\<open>headers or CONFIG["HEADERS"]\<close>: \<^verbatim>\<open>None\<close> and the empty dictionary are falsy\<close>
  "or_headers hdrs = (case hdrs of None \<Rightarrow> HEADERS | Some h \<Rightarrow> if h = [] then HEADERS else h)"

definition safe_request :: "web \<Rightarrow> str \<Rightarrow> headers option \<Rightarrow> response option" where
  \<comment> \<open>\<^verbatim>\<open>try: ... return res / except Exception: return None\<close>\<close>
  "safe_request get url hdrs =
     (case get url (or_headers hdrs) of
        Inl err \<Rightarrow> None
      | Inr res \<Rightarrow> Some res)"

definition truthy :: "response option \<Rightarrow> bool" where
  \<comment> \<open>\<^verbatim>\<open>bool(res)\<close>: \<^verbatim>\<open>None\<close> is false, a response is \<^verbatim>\<open>res.ok\<close>\<close>
  "truthy r = (case r of None \<Rightarrow> False
     | Some res \<Rightarrow> \<not> (400 \<le> status_code res \<and> status_code res < 600))"

section \<open>Pagination resolver\<close>

text \<open>
  The pattern \<^verbatim>\<open>\d\<close> and \<^verbatim>\<open>int()\<close> take every decimal digit of Unicode, not only the
  ASCII ones. The decimal digits come in runs of ten, from a zero on; \<open>DECIMAL_ZEROS\<close>
  lists the zeros of Unicode 14.0, the character database of Python 3.11. \<^verbatim>\<open>int()\<close>
  raises \<^verbatim>\<open>ValueError\<close> for a text of more than 4300 digits (the default limit of
  Python 3.11).
\<close>

definition DECIMAL_ZEROS :: "nat list" where
  "DECIMAL_ZEROS =
     [0x30, 0x660, 0x6F0, 0x7C0, 0x966, 0x9E6, 0xA66, 0xAE6, 0xB66, 0xBE6, 0xC66, 0xCE6,
      0xD66, 0xDE6, 0xE50, 0xED0, 0xF20, 0x1040, 0x1090, 0x17E0, 0x1810, 0x1946, 0x19D0,
      0x1A80, 0x1A90, 0x1B50, 0x1BB0, 0x1C40, 0x1C50, 0xA620, 0xA8D0, 0xA900, 0xA9D0,
      0xA9F0, 0xAA50, 0xABF0, 0xFF10, 0x104A0, 0x10D30, 0x11066, 0x110F0, 0x11136,
      0x111D0, 0x112F0, 0x11450, 0x114D0, 0x11650, 0x116C0, 0x11730, 0x118E0, 0x11950,
      0x11C50, 0x11D50, 0x11DA0, 0x16A60, 0x16AC0, 0x16B50, 0x1D7CE, 0x1D7D8, 0x1D7E2,
      0x1D7EC, 0x1D7F6, 0x1E140, 0x1E2F0, 0x1E950, 0x1FBF0]"

definition decimal_digit :: "nat \<Rightarrow> nat option" where
  \<comment> \<open>the value of a decimal digit, \<open>None\<close> for any other character\<close>
  "decimal_digit c =
     map_option (\<lambda>z. c - z) (find (\<lambda>z. z \<le> c \<and> c < z + 10) DECIMAL_ZEROS)"

definition is_decimal :: "nat \<Rightarrow> bool" where
  "is_decimal c = (decimal_digit c \<noteq> None)"

definition int_of_digits :: "str \<Rightarrow> nat" where
  "int_of_digits ds =
     foldl (\<lambda>a c. 10 * a + (case decimal_digit c of None \<Rightarrow> 0 | Some d \<Rightarrow> d)) 0 ds"

definition INT_MAX_STR_DIGITS :: nat where
  "INT_MAX_STR_DIGITS = 4300"

definition match_index_here :: "str \<Rightarrow> str option" where
  \<comment> \<open>\<^verbatim>\<open>index(\d+)\.html\<close> at the start of the string; the group\<close>
  "match_index_here s =
     (if startswith s (ascii ''index'') then
        (let r = drop 5 s; ds = takeWhile is_decimal r in
         if ds \<noteq> [] \<and> startswith (dropWhile is_decimal r) (ascii ''.html'') then Some ds
         else None)
      else None)"

fun search_index :: "str \<Rightarrow> str option" where \<comment> \<open>\<^verbatim>\<open>re.search\<close>: the leftmost match\<close>
  "search_index [] = None"
| "search_index (c # cs) =
     (case match_index_here (c # cs) of Some ds \<Rightarrow> Some ds | None \<Rightarrow> search_index cs)"

definition or_board_url :: "str option \<Rightarrow> str" where
  \<comment> \<open>\<^verbatim>\<open>board_url or CONFIG["BOARD_URL"]\<close>\<close>
  "or_board_url board_url =
     (case board_url of None \<Rightarrow> BOARD_URL | Some u \<Rightarrow> if u = [] then BOARD_URL else u)"

definition get_latest_index :: "web \<Rightarrow> str option \<Rightarrow> error + int option" where
  "get_latest_index get board_url =
     (let res = safe_request get (or_board_url board_url) None
      in case (if truthy res then res else None) of
           None \<Rightarrow> Inr None
         | Some r \<Rightarrow>
             (case select_prev_list False 0 (soup r) of
                None \<Rightarrow> Inr None
              | Some (NavigableString s) \<Rightarrow> Inr None
              | Some (Tag n attrs cs) \<Rightarrow>
                  (case map_of attrs (ascii ''href'') of
                     None \<Rightarrow> Inl KeyError
                   | Some href \<Rightarrow>
                       (case search_index href of
                          None \<Rightarrow> Inr None
                        | Some ds \<Rightarrow>
                            if INT_MAX_STR_DIGITS < length ds then Inl ValueError
                            else Inr (Some (int (int_of_digits ds) + 1))))))"

section \<open>Content extractor\<close>

definition label_here :: "str \<Rightarrow> str \<Rightarrow> bool" where
  \<comment> \<open>the token and one of \<^verbatim>\<open>:\<close>, \<^verbatim>\<open>,\<close> and the full-width colon, at the start\<close>
  "label_here tok s =
     (startswith s tok \<and>
      (case drop (length tok) s of [] \<Rightarrow> False | p # r \<Rightarrow> p = 58 \<or> p = 44 \<or> p = 0xFF1A))"

fun after_label :: "str \<Rightarrow> str \<Rightarrow> str option" where
  \<comment> \<open>what follows the match of \<^verbatim>\<open>^.*?TOKEN[:,...]\s*\<close>; \<^verbatim>\<open>.\<close> does not cross a newline\<close>
  "after_label tok [] = None"
| "after_label tok (c # cs) =
     (if label_here tok (c # cs)
      then Some (dropWhile is_space (drop (Suc (length tok)) (c # cs)))
      else if c = 10 then None
      else after_label tok cs)"

definition re_sub_label :: "str \<Rightarrow> str \<Rightarrow> str" where
  "re_sub_label tok line = (case after_label tok line of None \<Rightarrow> line | Some r \<Rightarrow> r)"

fun classify :: "str list \<Rightarrow> str \<times> str \<times> str list \<Rightarrow> str \<times> str \<times> str list" where
  \<comment> \<open>the \<^verbatim>\<open>while\<close> loop over the lines: title, source and body lines so far\<close>
  "classify [] acc = acc"
| "classify (line # rest) (ttl, src, body_lines) =
     (if contains TOKEN_TITLE line
      then classify rest (strip (re_sub_label TOKEN_TITLE line), src, body_lines)
      else if contains TOKEN_AUTHOR line
      then classify rest (ttl, strip (re_sub_label TOKEN_AUTHOR line), body_lines)
      else classify rest (ttl, src, body_lines @ [line]))"

definition is_header :: "str \<Rightarrow> bool" where
  "is_header line = (contains TOKEN_BOARD line \<or> contains TOKEN_TIME line)"

fun clean_loop :: "bool \<Rightarrow> str list \<Rightarrow> str list" where
  \<comment> \<open>the \<^verbatim>\<open>for\<close> loop with its flag \<^verbatim>\<open>content_started\<close>\<close>
  "clean_loop content_started [] = []"
| "clean_loop content_started (line # rest) =
     (if \<not> content_started \<and> is_header line then clean_loop content_started rest
      else line # clean_loop True rest)"

record structured =
  st_title :: str
  st_source :: str
  st_urls :: "str list"
  st_content :: str

definition text_lines :: "node list \<Rightarrow> str list" where
  \<comment> \<open>\<^verbatim>\<open>lines\<close>: the stripped, non-empty lines of the region's text\<close>
  "text_lines kept =
     map strip (filter (\<lambda>ln. strip ln \<noteq> []) (splitlines (strip (join [10] (strings_list kept)))))"

definition extract_fields :: "node list \<Rightarrow> structured" where
  \<comment> \<open>the body of \<^verbatim>\<open>get_structured_content\<close> from the children of the main region on\<close>
  "extract_fields cs =
     (let kept = filter (\<lambda>x. \<not> is_decoration x) cs;
          lines = text_lines kept;
          found = hrefs_list kept;
          (ttl, src, body_lines) = classify lines ([], [], []);
          clean_content = clean_loop False body_lines
      in \<lparr>st_title = ttl, st_source = src, st_urls = found,
          st_content = strip (join [10] clean_content)\<rparr>)"

definition get_structured_content :: "web \<Rightarrow> str \<Rightarrow> structured option" where
  \<comment> \<open>\<open>None\<close> is the empty dictionary\<close>
  "get_structured_content get url =
     (let res = safe_request get url None in
      case (if truthy res then res else None) of
        None \<Rightarrow> None
      | Some r \<Rightarrow>
          (case select_main_list (soup r) of
             None \<Rightarrow> None
           | Some (NavigableString s) \<Rightarrow> None
           | Some (Tag n attrs cs) \<Rightarrow> Some (extract_fields cs)))"

section \<open>Incremental persister\<close>

record content_row = listing +
  source :: str
  content :: str
  urls :: str

text \<open>
  The content table is a file: absent, or its rows. What a run meets outside the program
  is its environment: the web, whether \<^verbatim>\<open>pd.read_csv\<close> raises, and whether the
  \<open>i\<close>-th write of the run raises. A failed write leaves the file as it was.
  \<^verbatim>\<open>read_csv\<close> gives text cells back as written, except that it reads the cells of
  \<open>NA_VALUES\<close> as missing, which \<^verbatim>\<open>dropna\<close> removes; its reading of a column as
  numbers is not modelled.
\<close>

record env =
  requests_get :: web
  read_fails :: bool
  write_fails :: "nat \<Rightarrow> bool"

definition NA_VALUES :: "str list" where
  "NA_VALUES = map ascii ['''', ''#N/A'', ''#N/A N/A'', ''#NA'', ''-1.#IND'', ''-1.#QNAN'',
     ''-NaN'', ''-nan'', ''1.#IND'', ''1.#QNAN'', ''<NA>'', ''N/A'', ''NA'', ''NULL'', ''NaN'',
     ''None'', ''n/a'', ''nan'', ''null'']"

definition rows_of :: "'a list option \<Rightarrow> 'a list" where
  "rows_of file = (case file of None \<Rightarrow> [] | Some rows \<Rightarrow> rows)"

definition existing_links :: "env \<Rightarrow> content_row list option \<Rightarrow> str list" where
  "existing_links e file =
     (case file of
        None \<Rightarrow> []
      | Some rows \<Rightarrow>
          if read_fails e then []
          else filter (\<lambda>l. l \<notin> set NA_VALUES) (map link rows))"

definition to_crawl :: "listing dataframe \<Rightarrow> str list \<Rightarrow> error + listing list" where
  "to_crawl filtered_data existing =
     (case filtered_data of
        No_Columns \<Rightarrow> Inl KeyError
      | Frame rows \<Rightarrow> Inr (filter (\<lambda>r. link r \<notin> set existing) rows))"

definition make_record :: "listing \<Rightarrow> structured option \<Rightarrow> content_row" where
  "make_record row st =
     \<lparr>title = title row, date = date row, link = link row, nrec = nrec row,
      source = (case st of None \<Rightarrow> [] | Some d \<Rightarrow> st_source d),
      content = (case st of None \<Rightarrow> [] | Some d \<Rightarrow> st_content d),
      urls = join (ascii ''|'') (case st of None \<Rightarrow> [] | Some d \<Rightarrow> st_urls d)\<rparr>"

definition safe_write_csv ::
  "env \<Rightarrow> nat \<Rightarrow> content_row \<Rightarrow> content_row list option \<Rightarrow> content_row list option" where
  "safe_write_csv e i data file =
     (if write_fails e i then file else Some (rows_of file @ [data]))"

fun append_rows ::
  "env \<Rightarrow> nat \<Rightarrow> listing list \<Rightarrow> content_row list option \<Rightarrow> content_row list option" where
  "append_rows e i [] file = file"
| "append_rows e i (row # rest) file =
     (let st = get_structured_content (requests_get e) (link row);
          rec = make_record row st
      in append_rows e (Suc i) rest (safe_write_csv e i rec file))"

definition crawl_ptt_post_content ::
  "env \<Rightarrow> listing dataframe \<Rightarrow> content_row list option \<Rightarrow> error + content_row list option" where
  "crawl_ptt_post_content e filtered_data file =
     (case to_crawl filtered_data (existing_links e file) of
        Inl err \<Rightarrow> Inl err
      | Inr rows \<Rightarrow> Inr (append_rows e 0 rows file))"

section \<open>Example environments\<close>

definition lib_coerce :: "str \<Rightarrow> numeric" where
  \<comment> \<open>an instance of the parameter \<open>lib\<close> for the examples, none of which depends on it\<close>
  "lib_coerce s = NaN"

definition web_of :: "response \<Rightarrow> web" where \<comment> \<open>every request is answered by \<open>res\<close>\<close>
  "web_of res = (\<lambda>url hdrs. Inr res)"

definition web_down :: web where \<comment> \<open>every request raises\<close>
  "web_down = (\<lambda>url hdrs. Inl ConnectionError)"

definition page :: "node list \<Rightarrow> response" where
  "page nodes = \<lparr>status_code = 200, soup = nodes\<rparr>"

definition paging :: "node list \<Rightarrow> node" where
  "paging anchors =
     Tag (ascii ''div'') [(ascii ''class'', ascii ''btn-group btn-group-paging'')] anchors"

definition button :: "str option \<Rightarrow> node" where
  "button href =
     Tag (ascii ''a'')
       ((ascii ''class'', ascii ''btn wide'') #
        (case href of None \<Rightarrow> [] | Some h \<Rightarrow> [(ascii ''href'', h)])) []"

definition anchor :: "str \<Rightarrow> node" where
  "anchor h = Tag (ascii ''a'') [(ascii ''href'', h)] [NavigableString h]"

definition main_content :: "node list \<Rightarrow> node" where
  "main_content cs = Tag (ascii ''div'') [(ascii ''id'', ascii ''main-content'')] cs"

definition env_ok :: "web \<Rightarrow> env" where \<comment> \<open>the table can be read and written\<close>
  "env_ok w = \<lparr>requests_get = w, read_fails = False, write_fails = (\<lambda>i. False)\<rparr>"

definition env_write_fails :: "web \<Rightarrow> env" where \<comment> \<open>every write raises\<close>
  "env_write_fails w = \<lparr>requests_get = w, read_fails = False, write_fails = (\<lambda>i. True)\<rparr>"

definition env_read_fails :: "web \<Rightarrow> env" where \<comment> \<open>\<^verbatim>\<open>pd.read_csv\<close> raises\<close>
  "env_read_fails w = \<lparr>requests_get = w, read_fails = True, write_fails = (\<lambda>i. False)\<rparr>"

definition post1 :: listing where
  "post1 = \<lparr>title = ascii ''post'', date = ascii ''1/01'',
            link = BASE_URL @ ascii ''/bbs/stock/M.1.A.html'', nrec = ascii ''55''\<rparr>"

section \<open>Properties of the numeric conversion\<close>





lemma parse_decimal_digits:
  assumes "ds \<noteq> []" "\<forall>c\<in>set ds. is_digit c"
  shows "parse_decimal ds = Some (False, ds, 0)"
proof -
  obtain c r where ds: "ds = c # r" using assms(1) by (cases ds) auto
  have c: "is_digit c" using assms(2) ds by simp
  then have sp: "dropWhile isspace_ascii ds = ds"
    by (auto simp: ds isspace_ascii_def is_digit_def)
  have sg: "take_sign ds = (False, ds)"
    using c by (auto simp: ds take_sign_def is_digit_def)
  have tw: "takeWhile is_digit ds = ds" "dropWhile is_digit ds = []"
    using assms(2) by auto
  show ?thesis
    using assms(1) by (simp add: parse_decimal_def sp sg tw take_exponent_def Let_def)
qed

lemma parse_decimal_minus_digits:
  assumes "ds \<noteq> []" "\<forall>c\<in>set ds. is_digit c"
  shows "parse_decimal (45 # ds) = Some (True, ds, 0)"
proof -
  have sp: "\<not> isspace_ascii 45"
    by (simp add: isspace_ascii_def)
  have sg: "take_sign (45 # ds) = (True, ds)"
    by (simp add: take_sign_def)
  have tw: "takeWhile is_digit ds = ds" "dropWhile is_digit ds = []"
    using assms(2) by auto
  show ?thesis
    using assms(1) by (simp add: parse_decimal_def sp sg tw take_exponent_def Let_def)
qed

lemma digits_val_snoc: "digits_val (ds @ [c]) = 10 * digits_val ds + (c - 48)"
  by (simp add: digits_val_def)

lemma digits_val_bound: "\<forall>c\<in>set ds. is_digit c \<Longrightarrow> digits_val ds < 10 ^ length ds"
proof (induction ds rule: rev_induct)
  case Nil
  then show ?case by (simp add: digits_val_def)
next
  case (snoc c ds)
  then have "digits_val ds < 10 ^ length ds" "c - 48 \<le> 9"
    by (auto simp: is_digit_def)
  then have "10 * digits_val ds + (c - 48) < 10 * 10 ^ length ds" by linarith
  then show ?case by (simp add: digits_val_snoc)
qed

lemma digits_val_15:
  assumes "\<forall>c\<in>set ds. is_digit c" "length ds \<le> 15"
  shows "digits_val ds < 2 ^ 53"
proof -
  have "digits_val ds < 10 ^ length ds" using assms(1) by (rule digits_val_bound)
  also have "(10::nat) ^ length ds \<le> 10 ^ 15"
    using assms(2) by (intro power_increasing) simp_all
  also have "(10::nat) ^ 15 < 2 ^ 53" by simp
  finally show ?thesis .
qed

lemma exactly_held_digits:
  assumes "\<forall>c\<in>set ds. is_digit c" "length ds \<le> 15"
  shows "exactly_held (neg, ds, 0)" "decimal_value (neg, ds, 0)
     = (if neg then - of_nat (digits_val ds) else of_nat (digits_val ds))"
proof -
  have v: "decimal_value (neg, ds, 0)
     = (if neg then - of_nat (digits_val ds) else of_nat (digits_val ds))"
    by (simp add: decimal_value_def)
  then have "decimal_value (neg, ds, 0)
     = of_int (if neg then - int (digits_val ds) else int (digits_val ds))"
    by simp
  then have q: "quotient_of (decimal_value (neg, ds, 0))
     = ((if neg then - int (digits_val ds) else int (digits_val ds)), 1)"
    by (simp add: quotient_of_int [unfolded Rat.of_int_def])
  have "int (digits_val ds) < 2 ^ 53"
    using digits_val_15 [OF assms] by (metis of_nat_less_iff of_nat_numeral of_nat_power)
  then show "exactly_held (neg, ds, 0)"
    using assms(2) by (simp add: exactly_held_def q)
  show "decimal_value (neg, ds, 0)
     = (if neg then - of_nat (digits_val ds) else of_nat (digits_val ds))"
    by (rule v)
qed

lemma digits_no_nul: "\<forall>c\<in>set ds. is_digit c \<Longrightarrow> 0 \<notin> set ds"
  by (auto simp: is_digit_def)

lemma normalize_held:
  assumes "parse_decimal s = Some d" "exactly_held d" "s \<noteq> BAO" "s \<noteq> ascii ''X''" "0 \<notin> set s"
  shows "popularity_score lib s = Fin (decimal_value d)"
proof -
  have "s \<noteq> []" using assms(1) by (auto simp: parse_decimal_def take_sign_def Let_def)
  then show ?thesis
    using assms
    by (simp add: popularity_score_def replace_sentinels_def to_numeric_def floatify_def
        fillna_def)
qed

lemma digits_not_sentinel:
  assumes "\<forall>c\<in>set ds. is_digit c"
  shows "ds \<noteq> BAO" "ds \<noteq> ascii ''X''" "45 # ds \<noteq> BAO" "45 # ds \<noteq> ascii ''X''"
  using assms by (auto simp: BAO_def ascii_def is_digit_def)

lemma normalize_digits:
  assumes "ds \<noteq> []" "\<forall>c\<in>set ds. is_digit c" "length ds \<le> 15"
  shows "popularity_score lib ds = Fin (of_nat (digits_val ds))"
  using normalize_held [OF parse_decimal_digits [OF assms(1,2)]
      exactly_held_digits(1) [OF assms(2,3)], of lib]
    digits_not_sentinel [OF assms(2)] digits_no_nul [OF assms(2)]
    exactly_held_digits(2) [OF assms(2,3), of False]
  by simp



lemma normalize_sentinels:
  "popularity_score lib BAO = Fin 100" "popularity_score lib (ascii ''X'') = Fin (- 1)"
proof -
  have d: "\<forall>c\<in>set (ascii ''100''). is_digit c" "\<forall>c\<in>set (ascii ''1''). is_digit c"
    by (simp_all add: ascii_def is_digit_def)
  have "to_numeric lib (ascii ''100'') = Fin 100"
    using parse_decimal_digits [OF _ d(1)] exactly_held_digits [OF d(1), of False]
    by (simp add: to_numeric_def floatify_def ascii_def digits_val_def)
  then show "popularity_score lib BAO = Fin 100"
    by (simp add: popularity_score_def replace_sentinels_def fillna_def)
  have "to_numeric lib (ascii ''-1'') = Fin (- 1)"
    using parse_decimal_minus_digits [OF _ d(2)] exactly_held_digits [OF d(2), of True]
    by (simp add: to_numeric_def floatify_def ascii_def digits_val_def)
  then show "popularity_score lib (ascii ''X'') = Fin (- 1)"
    by (simp add: popularity_score_def replace_sentinels_def fillna_def BAO_def ascii_def)
qed



section \<open>Popularity normalization\<close>




section \<open>Popularity filter\<close>

lemma or_default_simps:
  "or_default None = 40" "or_default (Some 0) = 40" "t \<noteq> 0 \<Longrightarrow> or_default (Some t) = t"
  by (simp_all add: or_default_def DEFAULT_THRESHOLD_def)

lemma process_recommendations_Frame:
  "process_recommendations lib (Frame rows) threshold =
     Inr (Frame (filter (\<lambda>r. ge_threshold (popularity_score lib (nrec r)) (or_default threshold))
       rows))"
  by (simp add: process_recommendations_def)

lemma process_recommendations_No_Columns:
  "process_recommendations lib No_Columns threshold = Inl KeyError"
  by (simp add: process_recommendations_def)

lemma popularity_score_10: "popularity_score lib (ascii ''10'') = Fin 10"
  using normalize_digits [of "ascii ''10''" lib]
  by (simp add: ascii_def is_digit_def digits_val_def)

text \<open>
  C2: the filter is to return exactly the records whose score is at least the threshold,
  for every threshold. At the threshold 0 the code does not: \<^verbatim>\<open>threshold or ...\<close> takes
  the given 0 for a missing threshold and filters at 40. A single listing of popularity
  \<^verbatim>\<open>"10"\<close>, whose score 10 is at least 0, is dropped.
\<close>

theorem process_recommendations_zero_threshold:
  "process_recommendations lib
     (DataFrame [\<lparr>title = ascii ''t'', date = ascii ''1/01'', link = ascii ''u'',
                  nrec = ascii ''10''\<rparr>]) (Some 0) = Inr (Frame [])
   \<and> ge_threshold (popularity_score lib (ascii ''10'')) 0"
  by (simp add: DataFrame_def process_recommendations_Frame or_default_simps
      popularity_score_10 ge_threshold_def)

text \<open>
  C8: lowering the threshold is never to remove a selected record, so the result at
  threshold 0 is to contain the result at every higher threshold. In the code, lowering
  the threshold to 0 does remove records: a listing of popularity \<^verbatim>\<open>"10"\<close> is selected
  at threshold 10 and at threshold 1, and dropped at threshold 0, which the code replaces
  by 40. The result at 0 contains the result at 40 only because it is the result at 40.
\<close>

theorem lowering_threshold_to_zero_drops_record:
  "process_recommendations lib
     (Frame [\<lparr>title = ascii ''t'', date = ascii ''1/01'', link = ascii ''u'',
              nrec = ascii ''10''\<rparr>]) (Some 10)
     = Inr (Frame [\<lparr>title = ascii ''t'', date = ascii ''1/01'', link = ascii ''u'',
                    nrec = ascii ''10''\<rparr>])
   \<and> process_recommendations lib
     (Frame [\<lparr>title = ascii ''t'', date = ascii ''1/01'', link = ascii ''u'',
              nrec = ascii ''10''\<rparr>]) (Some 1)
     = Inr (Frame [\<lparr>title = ascii ''t'', date = ascii ''1/01'', link = ascii ''u'',
                    nrec = ascii ''10''\<rparr>])
   \<and> process_recommendations lib
     (Frame [\<lparr>title = ascii ''t'', date = ascii ''1/01'', link = ascii ''u'',
              nrec = ascii ''10''\<rparr>]) (Some 0)
     = Inr (Frame [])"
  by (simp add: process_recommendations_Frame or_default_simps popularity_score_10
      ge_threshold_def)

text \<open>
  C9: an explicit threshold of 0, like a missing one, is replaced by the default 40, in
  \<^verbatim>\<open>process_recommendations\<close> and in \<^verbatim>\<open>process_and_save_data\<close>: filtering at 0 gives
  what filtering at 40 gives. It gives back the whole collection only when every record
  scores at least 40.
\<close>

theorem zero_threshold_is_default:
  "process_recommendations lib df (Some 0) = process_recommendations lib df (Some 40)
   \<and> process_recommendations lib df None = process_recommendations lib df (Some 40)
   \<and> process_and_save_data lib df (Some 0) filename
       = process_and_save_data lib df (Some 40) filename
   \<and> process_and_save_data lib df None filename
       = process_and_save_data lib df (Some 40) filename
   \<and> (process_recommendations lib (Frame rows) (Some 0) = Inr (Frame rows)
        \<longleftrightarrow> (\<forall>r\<in>set rows. ge_threshold (popularity_score lib (nrec r)) 40))"
  by (simp add: process_recommendations_def process_and_save_data_def or_default_simps
      filter_id_conv)

theorem zero_threshold_is_default_witness:
  "process_recommendations lib_coerce
     (Frame [\<lparr>title = [], date = [], link = [], nrec = ascii ''10''\<rparr>]) (Some 0)
   \<noteq> Inr (Frame [\<lparr>title = [], date = [], link = [], nrec = ascii ''10''\<rparr>])
   \<and> process_recommendations lib_coerce
     (Frame [\<lparr>title = [], date = [], link = [], nrec = BAO\<rparr>]) (Some 0)
   = Inr (Frame [\<lparr>title = [], date = [], link = [], nrec = BAO\<rparr>])"
proof -
  let ?lo = "[\<lparr>title = [], date = [], link = [], nrec = ascii ''10''\<rparr>]"
  let ?hi = "[\<lparr>title = [], date = [], link = [], nrec = BAO\<rparr>]"
  have lo: "process_recommendations lib_coerce (Frame ?lo) (Some 0) = Inr (Frame ?lo)
        \<longleftrightarrow> (\<forall>r\<in>set ?lo. ge_threshold (popularity_score lib_coerce (nrec r)) 40)"
    using zero_threshold_is_default [of lib_coerce No_Columns None ?lo] by blast
  have hi: "process_recommendations lib_coerce (Frame ?hi) (Some 0) = Inr (Frame ?hi)
        \<longleftrightarrow> (\<forall>r\<in>set ?hi. ge_threshold (popularity_score lib_coerce (nrec r)) 40)"
    using zero_threshold_is_default [of lib_coerce No_Columns None ?hi] by blast
  show ?thesis
    using lo hi by (simp add: popularity_score_10 normalize_sentinels ge_threshold_def)
qed

section \<open>Fetcher\<close>

text \<open>
  C7, as the claim states it, fails for a response whose status is not 2xx: the fetcher
  returns that response, it does not turn it into an absent result. A response of status
  404 comes back as it is (its callers find it false), and one of status 304 comes back
  and is true for its callers.
\<close>

theorem safe_request_status_counterexample:
  "safe_request (web_of \<lparr>status_code = 404, soup = []\<rparr>) (ascii ''u'') None
     = Some \<lparr>status_code = 404, soup = []\<rparr>
   \<and> safe_request (web_of \<lparr>status_code = 304, soup = []\<rparr>) (ascii ''u'') None
     = Some \<lparr>status_code = 304, soup = []\<rparr>
   \<and> truthy (safe_request (web_of \<lparr>status_code = 304, soup = []\<rparr>) (ascii ''u'') None)"
  by (simp add: safe_request_def web_of_def truthy_def)

text \<open>
  C7, amended: for every URL the fetcher returns an absent result exactly when the
  transport raises (DNS, timeout, connection reset, TLS), and it never raises itself; a
  response is returned as it is, whatever its status. The truth value its callers test
  is false exactly when the transport raised or the status is from 400 to 599.
\<close>

theorem safe_request_amended:
  "(safe_request get url hdrs = None \<longleftrightarrow> (\<exists>err. get url (or_headers hdrs) = Inl err))
   \<and> (safe_request get url hdrs = Some res \<longleftrightarrow> get url (or_headers hdrs) = Inr res)
   \<and> (\<not> truthy (safe_request get url hdrs) \<longleftrightarrow>
        (\<exists>err. get url (or_headers hdrs) = Inl err)
        \<or> (\<exists>r. get url (or_headers hdrs) = Inr r \<and> 400 \<le> status_code r \<and> status_code r < 600))"
  by (cases "get url (or_headers hdrs)") (auto simp: safe_request_def truthy_def)

theorem safe_request_amended_witness:
  "safe_request web_down (ascii ''https://www.ptt.cc/bbs/stock/index.html'') None = None
   \<and> \<not> truthy (safe_request (web_of \<lparr>status_code = 500, soup = []\<rparr>) (ascii ''u'') None)"
proof -
  have "safe_request web_down (ascii ''https://www.ptt.cc/bbs/stock/index.html'') None = None"
    using safe_request_amended
      [of web_down "ascii ''https://www.ptt.cc/bbs/stock/index.html''" None]
    by (simp add: web_down_def)
  moreover have
    "\<not> truthy (safe_request (web_of \<lparr>status_code = 500, soup = []\<rparr>) (ascii ''u'') None)"
    using safe_request_amended
      [of "web_of \<lparr>status_code = 500, soup = []\<rparr>" "ascii ''u''" None]
    by (simp add: web_of_def)
  ultimately show ?thesis by simp
qed

section \<open>Pagination resolver\<close>

lemma dot_not_decimal: "\<not> is_decimal 46"
  by (simp add: is_decimal_def decimal_digit_def DECIMAL_ZEROS_def)

lemma ascii_digit_decimal: "is_digit c \<Longrightarrow> decimal_digit c = Some (c - 48)"
  by (auto simp: is_digit_def decimal_digit_def DECIMAL_ZEROS_def)

lemma int_of_ascii_digits: "\<forall>c\<in>set ds. is_digit c \<Longrightarrow> int_of_digits ds = digits_val ds"
proof (induction ds rule: rev_induct)
  case Nil
  then show ?case by (simp add: int_of_digits_def digits_val_def)
next
  case (snoc c ds)
  then have "int_of_digits ds = digits_val ds" "decimal_digit c = Some (c - 48)"
    by (simp_all add: ascii_digit_decimal)
  then show ?case by (simp add: int_of_digits_def digits_val_def)
qed

lemma match_index_here_digits:
  assumes "ds \<noteq> []" "\<forall>c\<in>set ds. is_decimal c"
  shows "match_index_here (ascii ''index'' @ ds @ ascii ''.html'' @ post) = Some ds"
proof -
  have nd: "\<not> is_decimal 46" by (rule dot_not_decimal)
  have tw: "takeWhile is_decimal (ds @ 46 # r) = ds" for r
    using assms(2) nd by (simp add: takeWhile_append2)
  have dw: "dropWhile is_decimal (ds @ 46 # r) = 46 # r" for r
    using assms(2) nd by (simp add: dropWhile_append2)
  show ?thesis
    using assms(1) by (simp add: match_index_here_def startswith_def ascii_def tw dw)
qed

lemma search_index_first:
  assumes "ds \<noteq> []" "\<forall>c\<in>set ds. is_decimal c"
    "\<forall>k<length pre. match_index_here
        (drop k (pre @ ascii ''index'' @ ds @ ascii ''.html'' @ post)) = None"
  shows "search_index (pre @ ascii ''index'' @ ds @ ascii ''.html'' @ post) = Some ds"
  using assms(3)
proof (induction pre)
  case Nil
  have "ascii ''index'' @ ds @ ascii ''.html'' @ post \<noteq> []"
    by (simp add: ascii_def)
  then obtain c cs where e: "ascii ''index'' @ ds @ ascii ''.html'' @ post = c # cs"
    by (cases "ascii ''index'' @ ds @ ascii ''.html'' @ post") auto
  show ?case
    using match_index_here_digits [OF assms(1,2), of post] by (simp add: e)
next
  case (Cons c pre)
  have 0: "match_index_here (c # pre @ ascii ''index'' @ ds @ ascii ''.html'' @ post) = None"
    using Cons.prems [rule_format, of 0] by simp
  have "\<forall>k<length pre. match_index_here
        (drop k (pre @ ascii ''index'' @ ds @ ascii ''.html'' @ post)) = None"
  proof (intro allI impI)
    fix k assume "k < length pre"
    then show "match_index_here
        (drop k (pre @ ascii ''index'' @ ds @ ascii ''.html'' @ post)) = None"
      using Cons.prems [rule_format, of "Suc k"] by simp
  qed
  then show ?case using Cons.IH 0 by simp
qed

lemma search_index_none:
  "(\<forall>k\<le>length h. match_index_here (drop k h) = None) \<Longrightarrow> search_index h = None"
proof (induction h)
  case Nil
  then show ?case by simp
next
  case (Cons c h)
  have 0: "match_index_here (c # h) = None"
    using Cons.prems [rule_format, of 0] by simp
  have "\<forall>k\<le>length h. match_index_here (drop k h) = None"
  proof (intro allI impI)
    fix k assume "k \<le> length h"
    then show "match_index_here (drop k h) = None"
      using Cons.prems [rule_format, of "Suc k"] by simp
  qed
  then show ?case using Cons.IH 0 by simp
qed

lemma get_latest_index_unreachable:
  "\<not> truthy (safe_request get (or_board_url board_url) None)
   \<Longrightarrow> get_latest_index get board_url = Inr None"
  by (simp add: get_latest_index_def)

lemma get_latest_index_reached:
  assumes "get (or_board_url board_url) HEADERS = Inr res"
    "\<not> (400 \<le> status_code res \<and> status_code res < 600)"
  shows "get_latest_index get board_url =
     (case select_prev_list False 0 (soup res) of
        None \<Rightarrow> Inr None
      | Some (NavigableString s) \<Rightarrow> Inr None
      | Some (Tag n attrs cs) \<Rightarrow>
          (case map_of attrs (ascii ''href'') of
             None \<Rightarrow> Inl KeyError
           | Some href \<Rightarrow>
               (case search_index href of
                  None \<Rightarrow> Inr None
                | Some ds \<Rightarrow>
                    if INT_MAX_STR_DIGITS < length ds then Inl ValueError
                    else Inr (Some (int (int_of_digits ds) + 1)))))"
  using assms
  by (simp add: get_latest_index_def safe_request_def or_headers_def truthy_def)


lemma decimal_zeros_tail: "DECIMAL_ZEROS = 0x30 # tl DECIMAL_ZEROS" "list_all (\<lambda>z. 0x660 \<le> z) (tl DECIMAL_ZEROS)"
  by (simp_all add: DECIMAL_ZEROS_def)

lemma decimal_digit_small:
  assumes "c < 0x660"
  shows "decimal_digit c = (if is_digit c then Some (c - 48) else None)"
proof -
  have "\<forall>z\<in>set (tl DECIMAL_ZEROS). \<not> (z \<le> c \<and> c < z + 10)"
    using decimal_zeros_tail(2) assms by (auto simp: list_all_iff)
  then have "find (\<lambda>z. z \<le> c \<and> c < z + 10) (tl DECIMAL_ZEROS) = None"
    by (simp add: find_None_iff)
  then have "find (\<lambda>z. z \<le> c \<and> c < z + 10) DECIMAL_ZEROS
      = (if 48 \<le> c \<and> c < 58 then Some 48 else None)"
    by (subst decimal_zeros_tail(1)) simp
  then show ?thesis by (auto simp: decimal_digit_def is_digit_def)
qed

lemma is_decimal_small: "c < 0x660 \<Longrightarrow> is_decimal c = is_digit c"
  by (simp add: is_decimal_def decimal_digit_small)

lemma decimal_digit_0x663: "decimal_digit 0x663 = Some 3"
  by (simp add: decimal_digit_def DECIMAL_ZEROS_def)

lemmas eval_defs = ascii_def page_def paging_def button_def web_of_def web_down_def
  get_latest_index_def safe_request_def or_headers_def or_board_url_def truthy_def has_class_def
  is_space_def match_index_here_def startswith_def is_decimal_small decimal_digit_small
  is_digit_def int_of_digits_def INT_MAX_STR_DIGITS_def

lemma get_latest_index_arabic_indic_digit:
  "get_latest_index
     (web_of (page [paging [button None, button (Some (ascii ''index'' @ [0x663] @ ascii ''.html''))]]))
     None = Inr (Some 4)"
  by (simp add: eval_defs is_decimal_def decimal_digit_0x663)

lemma get_latest_index_too_many_digits:
  "get_latest_index
     (web_of (page [paging [button None,
        button (Some (ascii ''index'' @ replicate 4301 49 @ ascii ''.html''))]]))
     None = Inl ValueError"
proof -
  have r: "\<forall>c\<in>set (replicate 4301 49). is_decimal c"
    by (simp add: is_decimal_def decimal_digit_def DECIMAL_ZEROS_def)
  have "match_index_here (ascii ''index'' @ replicate 4301 49 @ ascii ''.html'' @ [])
      = Some (replicate 4301 49)"
    using r by (intro match_index_here_digits) simp_all
  then have s: "search_index (ascii ''index'' @ replicate 4301 49 @ ascii ''.html'')
      = Some (replicate 4301 49)"
    by (simp add: ascii_def)
  have sel: "select_prev_list False 0
      (soup (page [paging [button None,
        button (Some (ascii ''index'' @ replicate 4301 49 @ ascii ''.html''))]]))
      = Some (Tag (ascii ''a'')
          [(ascii ''class'', ascii ''btn wide''),
           (ascii ''href'', ascii ''index'' @ replicate 4301 49 @ ascii ''.html'')] [])"
    by (simp add: page_def paging_def button_def has_class_def is_space_def ascii_def)
  show ?thesis
    using get_latest_index_reached
      [of "web_of (page [paging [button None,
        button (Some (ascii ''index'' @ replicate 4301 49 @ ascii ''.html''))]])" None
        "page [paging [button None,
        button (Some (ascii ''index'' @ replicate 4301 49 @ ascii ''.html''))]]"]
    unfolding sel
    by (simp add: web_of_def page_def s INT_MAX_STR_DIGITS_def) (simp add: ascii_def)
qed

lemma get_latest_index_no_href:
  "get_latest_index
     (web_of (page [paging [button (Some (ascii ''/bbs/stock/index1.html'')), button None,
                            button None, button (Some (ascii ''/bbs/stock/index.html''))]]))
     None = Inl KeyError"
  by (simp add: eval_defs)

text \<open>
  C4, as the claim states it, fails: the code takes the first place of the link target
  where the pattern matches, not the end of the link target. The target
  \<^verbatim>\<open>/index1.html?to=index2.html\<close> ends in \<^verbatim>\<open>index2.html\<close>, and the resolver returns 2,
  not 3.
\<close>

theorem get_latest_index_first_match_counterexample:
  "get_latest_index
     (web_of (page [paging [button (Some (ascii ''/index1.html'')),
                            button (Some (ascii ''/index1.html?to=index2.html''))]]))
     None = Inr (Some 2)
   \<and> ascii ''/index1.html?to=index2.html''
       = ascii ''/index1.html?to='' @ ascii ''index'' @ str_nat 2 @ ascii ''.html''"
  by (simp add: eval_defs)

text \<open>
  C4, amended: when the index page is reached and the link target of its second
  paging-control anchor has, as the first place where \<^verbatim>\<open>index<digits>.html\<close> occurs, the
  digits of the number k (at most 4300 decimal digits, of any script of Unicode), the
  resolver returns k plus one (so a previous-page link \<^verbatim>\<open>index123.html\<close> yields 124). It
  returns an absent result when the request raises or is answered with a status from 400
  to 599, when the page has no such anchor, and when the anchor's link target has no place
  where the pattern occurs.
\<close>

theorem get_latest_index_amended:
  "(\<forall>err. get (or_board_url board_url) HEADERS = Inl err \<longrightarrow>
       get_latest_index get board_url = Inr None)
   \<and> (\<forall>res. get (or_board_url board_url) HEADERS = Inr res
         \<and> 400 \<le> status_code res \<and> status_code res < 600 \<longrightarrow>
       get_latest_index get board_url = Inr None)
   \<and> (\<forall>res. get (or_board_url board_url) HEADERS = Inr res
         \<and> \<not> (400 \<le> status_code res \<and> status_code res < 600)
         \<and> select_prev_list False 0 (soup res) = None \<longrightarrow>
       get_latest_index get board_url = Inr None)
   \<and> (\<forall>res n attrs cs href. get (or_board_url board_url) HEADERS = Inr res
         \<and> \<not> (400 \<le> status_code res \<and> status_code res < 600)
         \<and> select_prev_list False 0 (soup res) = Some (Tag n attrs cs)
         \<and> map_of attrs (ascii ''href'') = Some href
         \<and> (\<forall>k\<le>length href. match_index_here (drop k href) = None) \<longrightarrow>
       get_latest_index get board_url = Inr None)
   \<and> (\<forall>res n attrs cs pre ds post. get (or_board_url board_url) HEADERS = Inr res
         \<and> \<not> (400 \<le> status_code res \<and> status_code res < 600)
         \<and> select_prev_list False 0 (soup res) = Some (Tag n attrs cs)
         \<and> map_of attrs (ascii ''href'')
             = Some (pre @ ascii ''index'' @ ds @ ascii ''.html'' @ post)
         \<and> ds \<noteq> [] \<and> (\<forall>c\<in>set ds. is_decimal c) \<and> length ds \<le> 4300
         \<and> (\<forall>k<length pre. match_index_here
               (drop k (pre @ ascii ''index'' @ ds @ ascii ''.html'' @ post)) = None) \<longrightarrow>
       get_latest_index get board_url = Inr (Some (int (int_of_digits ds) + 1)))"
proof (intro conjI allI impI)
  fix err assume "get (or_board_url board_url) HEADERS = Inl err"
  then have "\<not> truthy (safe_request get (or_board_url board_url) None)"
    by (simp add: safe_request_def or_headers_def truthy_def)
  then show "get_latest_index get board_url = Inr None"
    by (rule get_latest_index_unreachable)
next
  fix res
  assume "get (or_board_url board_url) HEADERS = Inr res
     \<and> 400 \<le> status_code res \<and> status_code res < 600"
  then have "\<not> truthy (safe_request get (or_board_url board_url) None)"
    by (simp add: safe_request_def or_headers_def truthy_def)
  then show "get_latest_index get board_url = Inr None"
    by (rule get_latest_index_unreachable)
next
  fix res
  assume a: "get (or_board_url board_url) HEADERS = Inr res
         \<and> \<not> (400 \<le> status_code res \<and> status_code res < 600)
         \<and> select_prev_list False 0 (soup res) = None"
  show "get_latest_index get board_url = Inr None"
    using get_latest_index_reached [of get board_url res] a by simp
next
  fix res n attrs cs href
  assume a: "get (or_board_url board_url) HEADERS = Inr res
         \<and> \<not> (400 \<le> status_code res \<and> status_code res < 600)
         \<and> select_prev_list False 0 (soup res) = Some (Tag n attrs cs)
         \<and> map_of attrs (ascii ''href'') = Some href
         \<and> (\<forall>k\<le>length href. match_index_here (drop k href) = None)"
  then have "search_index href = None"
    using search_index_none by blast
  then show "get_latest_index get board_url = Inr None"
    using get_latest_index_reached [of get board_url res] a by simp
next
  fix res n attrs cs pre ds post
  assume a: "get (or_board_url board_url) HEADERS = Inr res
         \<and> \<not> (400 \<le> status_code res \<and> status_code res < 600)
         \<and> select_prev_list False 0 (soup res) = Some (Tag n attrs cs)
         \<and> map_of attrs (ascii ''href'')
             = Some (pre @ ascii ''index'' @ ds @ ascii ''.html'' @ post)
         \<and> ds \<noteq> [] \<and> (\<forall>c\<in>set ds. is_decimal c) \<and> length ds \<le> 4300
         \<and> (\<forall>k<length pre. match_index_here
               (drop k (pre @ ascii ''index'' @ ds @ ascii ''.html'' @ post)) = None)"
  then have "search_index (pre @ ascii ''index'' @ ds @ ascii ''.html'' @ post) = Some ds"
    using search_index_first [of ds pre post] by blast
  then show "get_latest_index get board_url = Inr (Some (int (int_of_digits ds) + 1))"
    using get_latest_index_reached [of get board_url res] a
    by (simp add: INT_MAX_STR_DIGITS_def)
qed

theorem get_latest_index_amended_witness:
  "get_latest_index
     (web_of (page [paging [button (Some (ascii ''/bbs/stock/index1.html'')),
                            button (Some (ascii ''/bbs/stock/index123.html'')),
                            button None,
                            button (Some (ascii ''/bbs/stock/index.html''))]]))
     None = Inr (Some 124)
   \<and> get_latest_index web_down None = Inr None"
proof -
  let ?res = "page [paging [button (Some (ascii ''/bbs/stock/index1.html'')),
                            button (Some (ascii ''/bbs/stock/index123.html'')),
                            button None,
                            button (Some (ascii ''/bbs/stock/index.html''))]]"
  have early: "\<forall>k<length (ascii ''/bbs/stock/''). match_index_here
      (drop k (ascii ''/bbs/stock/'' @ ascii ''index'' @ ascii ''123'' @ ascii ''.html'' @ []))
      = None"
    by (simp add: ascii_def match_index_here_def startswith_def eval_nat_numeral All_less_Suc)
  have sel: "select_prev_list False 0 (soup ?res)
      = Some (Tag (ascii ''a'')
          [(ascii ''class'', ascii ''btn wide''),
           (ascii ''href'', ascii ''/bbs/stock/index123.html'')] [])"
    by (simp add: eval_defs)
  have dec: "\<forall>c\<in>set (ascii ''123''). is_decimal c"
    by (simp add: ascii_def is_decimal_def decimal_digit_def DECIMAL_ZEROS_def)
  have "get_latest_index (web_of ?res) None
      = Inr (Some (int (int_of_digits (ascii ''123'')) + 1))"
    using get_latest_index_amended [of "web_of ?res" None, THEN conjunct2, THEN conjunct2,
        THEN conjunct2, THEN conjunct2, rule_format,
        of ?res "ascii ''a''" _ "[]" "ascii ''/bbs/stock/''" "ascii ''123''" "[]"]
      early sel dec
    by (simp add: web_of_def page_def) (simp add: ascii_def)
  moreover have "int_of_digits (ascii ''123'') = 123"
    using int_of_ascii_digits [of "ascii ''123''"]
    by (simp add: ascii_def is_digit_def digits_val_def)
  ultimately have 1: "get_latest_index (web_of ?res) None = Inr (Some 124)"
    by simp
  have 2: "get_latest_index web_down None = Inr None"
    using get_latest_index_amended [of web_down None, THEN conjunct1]
    by (simp add: web_down_def)
  show ?thesis using 1 2 by simp
qed


section \<open>Properties of the string operations\<close>

lemma strip_ends:
  assumes "strip s \<noteq> []"
  shows "\<not> is_space (hd (strip s))" "\<not> is_space (last (strip s))"
proof -
  let ?t = "dropWhile is_space s"
  let ?u = "dropWhile is_space (rev ?t)"
  have u: "?u \<noteq> []" using assms by (simp add: strip_def)
  have t: "?t \<noteq> []"
  proof
    assume e: "?t = []"
    have "?u = []" unfolding e by simp
    with u show False by blast
  qed
  have hu: "\<not> is_space (hd ?u)" using u by (rule hd_dropWhile)
  have "takeWhile is_space (rev ?t) @ ?u = rev ?t" by simp
  then have "last (rev ?t) = last ?u" using u by (metis last_appendR)
  then have "last ?u = hd ?t" using t by (simp add: last_rev)
  moreover have "\<not> is_space (hd ?t)" using t by (rule hd_dropWhile)
  ultimately have lu: "\<not> is_space (last ?u)" by simp
  show "\<not> is_space (hd (strip s))" using lu u by (simp add: strip_def hd_rev)
  show "\<not> is_space (last (strip s))" using hu u by (simp add: strip_def last_rev)
qed

lemma strip_id:
  assumes "s \<noteq> []" "\<not> is_space (hd s)" "\<not> is_space (last s)"
  shows "strip s = s"
proof -
  have 1: "dropWhile is_space s = s" using assms(1,2) by (cases s) auto
  have "rev s \<noteq> []" "\<not> is_space (hd (rev s))" using assms(1,3) by (simp_all add: hd_rev)
  then have 2: "dropWhile is_space (rev s) = rev s" by (cases "rev s") auto
  show ?thesis by (simp add: strip_def 1 2)
qed

lemma strip_Nil: "strip [] = []"
  by (simp add: strip_def)

lemma join_ends:
  assumes "ls \<noteq> []" "\<forall>l\<in>set ls. l \<noteq> []"
  shows "join sep ls \<noteq> []" "hd (join sep ls) = hd (hd ls)" "last (join sep ls) = last (last ls)"
  using assms by (induction sep ls rule: join.induct) auto

lemma strip_join:
  assumes "\<forall>l\<in>set ls. l \<noteq> [] \<and> \<not> is_space (hd l) \<and> \<not> is_space (last l)"
  shows "strip (join sep ls) = join sep ls"
proof (cases ls)
  case Nil
  then show ?thesis by (simp add: strip_Nil)
next
  case (Cons a as)
  then have ne: "ls \<noteq> []" by simp
  have all: "\<forall>l\<in>set ls. l \<noteq> []" using assms by simp
  have "hd ls \<in> set ls" "last ls \<in> set ls" using ne by simp_all
  then have "\<not> is_space (hd (hd ls))" "\<not> is_space (last (last ls))" using assms by blast+
  then show ?thesis
    using join_ends [OF ne all, of sep] by (simp add: strip_id)
qed

section \<open>Properties of the content extractor\<close>

lemma clean_loop_started: "clean_loop True ls = ls"
  by (induction ls) auto

lemma clean_loop_dropWhile: "clean_loop False ls = dropWhile is_header ls"
  by (induction ls) (auto simp: clean_loop_started)

lemma classify_filter:
  "snd (snd (classify ls (t, s, b))) =
     b @ filter (\<lambda>l. \<not> contains TOKEN_TITLE l \<and> \<not> contains TOKEN_AUTHOR l) ls"
  by (induction ls "(t, s, b)" arbitrary: t s b rule: classify.induct) auto

lemma text_lines_stripped:
  assumes "l \<in> set (text_lines kept)"
  shows "l \<noteq> [] \<and> \<not> is_space (hd l) \<and> \<not> is_space (last l)"
proof -
  obtain ln where "l = strip ln" "strip ln \<noteq> []"
    using assms by (auto simp: text_lines_def)
  then show ?thesis using strip_ends [of ln] by simp
qed


lemma extract_fields_content:
  "st_content (extract_fields cs) =
     join [10] (dropWhile is_header
       (filter (\<lambda>l. \<not> contains TOKEN_TITLE l \<and> \<not> contains TOKEN_AUTHOR l)
         (text_lines (filter (\<lambda>x. \<not> is_decoration x) cs))))"
proof -
  let ?lines = "text_lines (filter (\<lambda>x. \<not> is_decoration x) cs)"
  let ?body = "filter (\<lambda>l. \<not> contains TOKEN_TITLE l \<and> \<not> contains TOKEN_AUTHOR l) ?lines"
  have st: "\<forall>l\<in>set (dropWhile is_header ?body).
      l \<noteq> [] \<and> \<not> is_space (hd l) \<and> \<not> is_space (last l)"
  proof
    fix l assume "l \<in> set (dropWhile is_header ?body)"
    then have "l \<in> set ?body" by (rule set_dropWhileD)
    then have "l \<in> set ?lines" by simp
    then show "l \<noteq> [] \<and> \<not> is_space (hd l) \<and> \<not> is_space (last l)"
      by (rule text_lines_stripped)
  qed
  have "snd (snd (classify ?lines ([], [], []))) = ?body"
    by (simp add: classify_filter)
  then have "st_content (extract_fields cs) = strip (join [10] (clean_loop False ?body))"
    by (auto simp: extract_fields_def Let_def split: prod.splits)
  then show ?thesis
    using strip_join [OF st] by (simp add: clean_loop_dropWhile)
qed

lemma extract_fields_urls:
  "st_urls (extract_fields cs) = hrefs_list (filter (\<lambda>x. \<not> is_decoration x) cs)"
  by (simp add: extract_fields_def Let_def split: prod.splits)

lemma get_structured_content_reached:
  assumes "get url HEADERS = Inr res"
    "\<not> (400 \<le> status_code res \<and> status_code res < 600)"
    "select_main_list (soup res) = Some (Tag n attrs cs)"
  shows "get_structured_content get url = Some (extract_fields cs)"
  using assms
  by (simp add: get_structured_content_def safe_request_def or_headers_def truthy_def)

lemma get_structured_content_failed:
  "(\<exists>err. get url HEADERS = Inl err)
   \<or> (\<exists>res. get url HEADERS = Inr res
        \<and> ((400 \<le> status_code res \<and> status_code res < 600)
            \<or> select_main_list (soup res) = None))
   \<Longrightarrow> get_structured_content get url = None"
  by (auto simp: get_structured_content_def safe_request_def or_headers_def truthy_def)

lemma hrefs_list_append: "hrefs_list (xs @ ys) = hrefs_list xs @ hrefs_list ys"
  by (induction xs) auto

lemma hrefs_list_anchors: "hrefs_list (map anchor us) = us"
  by (induction us) (auto simp: anchor_def)

lemma anchors_not_decoration: "filter (\<lambda>x. \<not> is_decoration x) (map anchor us) = map anchor us"
  by (induction us) (auto simp: anchor_def is_decoration_def ascii_def)

lemmas text_defs = ascii_def page_def web_of_def main_content_def anchor_def HEADERS_def
  is_decoration_def text_lines_def splitlines_def strip_def is_space_def is_linebreak_def
  startswith_def TOKEN_TITLE_def TOKEN_AUTHOR_def TOKEN_BOARD_def TOKEN_TIME_def is_header_def

text \<open>
  C5: when the provisional body lines of a post (the stripped, non-empty lines of the
  region's text that hold neither the Title nor the Author token) begin with lines that
  hold the Board or the Time token, the extractor drops exactly those leading lines: the
  content is the remaining lines joined by single newlines, from the first line that
  holds neither token on, later lines with such a token included.
\<close>

theorem content_drops_leading_headers:
  assumes "get url HEADERS = Inr res"
    and "\<not> (400 \<le> status_code res \<and> status_code res < 600)"
    and "select_main_list (soup res) = Some (Tag n attrs cs)"
    and "body = filter (\<lambda>l. \<not> contains TOKEN_TITLE l \<and> \<not> contains TOKEN_AUTHOR l)
                 (text_lines (filter (\<lambda>x. \<not> is_decoration x) cs))"
  shows "\<exists>s. get_structured_content get url = Some s
     \<and> st_content s = join [10] (dropWhile is_header body)
     \<and> (\<forall>hs c rest. body = hs @ c # rest \<and> (\<forall>h\<in>set hs. is_header h) \<and> \<not> is_header c
           \<longrightarrow> st_content s = join [10] (c # rest))"
proof -
  have s: "get_structured_content get url = Some (extract_fields cs)"
    using assms(1-3) by (rule get_structured_content_reached)
  have c: "st_content (extract_fields cs) = join [10] (dropWhile is_header body)"
    by (simp add: extract_fields_content assms(4))
  have "st_content (extract_fields cs) = join [10] (c # rest)"
    if "body = hs @ c # rest \<and> (\<forall>h\<in>set hs. is_header h) \<and> \<not> is_header c" for hs c rest
  proof -
    have "dropWhile is_header body = c # rest"
      using that by (simp add: dropWhile_append2)
    then show ?thesis using c by simp
  qed
  then show ?thesis using s c by blast
qed

theorem content_drops_leading_headers_witness:
  "map_option st_content
     (get_structured_content
        (web_of (page [main_content
           [NavigableString (TOKEN_BOARD @ ascii '': stock'' @ [10] @ ascii '' '' @ TOKEN_TIME
              @ ascii '' Mon'' @ [10, 10] @ ascii ''one'' @ [10] @ TOKEN_TIME @ ascii ''ly two ''
              @ [10] @ ascii ''three'' @ [10])]]))
        (ascii ''u''))
   = Some (ascii ''one'' @ [10] @ TOKEN_TIME @ ascii ''ly two'' @ [10] @ ascii ''three'')"
proof -
  let ?cs = "[NavigableString (TOKEN_BOARD @ ascii '': stock'' @ [10] @ ascii '' '' @ TOKEN_TIME
              @ ascii '' Mon'' @ [10, 10] @ ascii ''one'' @ [10] @ TOKEN_TIME @ ascii ''ly two ''
              @ [10] @ ascii ''three'' @ [10])]"
  let ?hs = "[TOKEN_BOARD @ ascii '': stock'', TOKEN_TIME @ ascii '' Mon'']"
  let ?rest = "[TOKEN_TIME @ ascii ''ly two'', ascii ''three'']"
  let ?body = "?hs @ ascii ''one'' # ?rest"
  have lines: "text_lines (filter (\<lambda>x. \<not> is_decoration x) ?cs) = ?body"
    by (simp add: text_defs)
  have body: "?body = filter (\<lambda>l. \<not> contains TOKEN_TITLE l \<and> \<not> contains TOKEN_AUTHOR l)
                 (text_lines (filter (\<lambda>x. \<not> is_decoration x) ?cs))"
    unfolding lines by (simp add: text_defs)
  have hd: "(\<forall>h\<in>set ?hs. is_header h) \<and> \<not> is_header (ascii ''one'')"
    by (simp add: text_defs)
  obtain s where s: "get_structured_content (web_of (page [main_content ?cs])) (ascii ''u'') = Some s"
    and c: "\<forall>hs c rest. ?body = hs @ c # rest \<and> (\<forall>h\<in>set hs. is_header h) \<and> \<not> is_header c
           \<longrightarrow> st_content s = join [10] (c # rest)"
    using content_drops_leading_headers
      [of "web_of (page [main_content ?cs])" "ascii ''u''" "page [main_content ?cs]"
          "ascii ''div''" "[(ascii ''id'', ascii ''main-content'')]" ?cs ?body, OF _ _ _ body]
    by (auto simp: web_of_def page_def main_content_def)
  have "st_content s = join [10] (ascii ''one'' # ?rest)"
    using c [rule_format, of ?hs "ascii ''one''" ?rest] hd by blast
  then show ?thesis using s by simp
qed


text \<open>
  C6, as the claim states it, fails: the link targets are collected after the direct
  \<^verbatim>\<open>div\<close> and \<^verbatim>\<open>span\<close> children of the region have been taken out of it, so an anchor
  inside one of them is not collected. A post with three anchors, the second inside a
  direct \<^verbatim>\<open>span\<close>, yields two link targets.
\<close>

theorem urls_skip_decoration_counterexample:
  "map_option st_urls
     (get_structured_content
        (web_of (page [main_content
           [anchor (ascii ''a''), Tag (ascii ''span'') [] [anchor (ascii ''b'')],
            anchor (ascii ''c'')]]))
        (ascii ''u''))
   = Some [ascii ''a'', ascii ''c'']
   \<and> hrefs_list [anchor (ascii ''a''), Tag (ascii ''span'') [] [anchor (ascii ''b'')],
                  anchor (ascii ''c'')]
     = [ascii ''a'', ascii ''b'', ascii ''c'']"
  by (simp add: get_structured_content_def safe_request_def or_headers_def truthy_def
      extract_fields_urls text_defs)

text \<open>
  C6, amended: the \<^verbatim>\<open>urls\<close> field holds every link target found in the main content
  region once its direct \<^verbatim>\<open>div\<close> and \<^verbatim>\<open>span\<close> children are removed, in document order
  and with duplicates. When the region has no such child, these are all the link targets
  of the original region; in particular a region of three anchors yields three.
\<close>

theorem urls_of_stripped_region:
  assumes "get url HEADERS = Inr res"
    and "\<not> (400 \<le> status_code res \<and> status_code res < 600)"
    and "select_main_list (soup res) = Some (Tag n attrs cs)"
  shows "\<exists>s. get_structured_content get url = Some s
     \<and> st_urls s = hrefs_list (filter (\<lambda>x. \<not> is_decoration x) cs)
     \<and> ((\<forall>x\<in>set cs. \<not> is_decoration x) \<longrightarrow> st_urls s = hrefs_list cs)
     \<and> (\<forall>us. cs = map anchor us \<longrightarrow> st_urls s = us \<and> length (st_urls s) = length us)"
proof -
  have s: "get_structured_content get url = Some (extract_fields cs)"
    using assms by (rule get_structured_content_reached)
  have 1: "st_urls (extract_fields cs) = hrefs_list (filter (\<lambda>x. \<not> is_decoration x) cs)"
    by (rule extract_fields_urls)
  have 2: "(\<forall>x\<in>set cs. \<not> is_decoration x) \<longrightarrow> st_urls (extract_fields cs) = hrefs_list cs"
    by (simp add: 1)
  have 3: "\<forall>us. cs = map anchor us \<longrightarrow>
      st_urls (extract_fields cs) = us \<and> length (st_urls (extract_fields cs)) = length us"
    by (simp add: extract_fields_urls anchors_not_decoration hrefs_list_anchors)
  show ?thesis using s 1 2 3 by blast
qed

theorem urls_of_stripped_region_witness:
  "map_option st_urls
     (get_structured_content
        (web_of (page [main_content (map anchor [ascii ''a'', ascii ''b'', ascii ''a''])]))
        (ascii ''u''))
   = Some [ascii ''a'', ascii ''b'', ascii ''a'']"
proof -
  let ?us = "[ascii ''a'', ascii ''b'', ascii ''a'']"
  obtain s where
    s: "get_structured_content (web_of (page [main_content (map anchor ?us)])) (ascii ''u'')
          = Some s"
    and u: "\<forall>us. map anchor ?us = map anchor us \<longrightarrow> st_urls s = us \<and> length (st_urls s) = length us"
    using urls_of_stripped_region
      [of "web_of (page [main_content (map anchor ?us)])" "ascii ''u''"
          "page [main_content (map anchor ?us)]"
          "ascii ''div''" "[(ascii ''id'', ascii ''main-content'')]" "map anchor ?us"]
    by (auto simp: web_of_def page_def main_content_def)
  have "st_urls s = ?us" using u [rule_format, of ?us] by simp
  then show ?thesis using s by simp
qed


section \<open>Properties of the incremental persister\<close>

lemma rows_of_simps: "rows_of None = []" "rows_of (Some rs) = rs"
  by (simp_all add: rows_of_def)

lemma link_make_record: "link (make_record r st) = link r"
  by (simp add: make_record_def)

lemma append_rows_all_written:
  "\<forall>j. \<not> write_fails e j \<Longrightarrow>
   rows_of (append_rows e i rs tbl) =
     rows_of tbl @ map (\<lambda>r. make_record r (get_structured_content (requests_get e) (link r))) rs"
  by (induction rs arbitrary: i tbl) (simp_all add: Let_def safe_write_csv_def rows_of_simps)

lemma append_rows_keeps_rows:
  "set (rows_of tbl) \<subseteq> set (rows_of (append_rows e i rs tbl))"
proof (induction rs arbitrary: i tbl)
  case Nil
  then show ?case by simp
next
  case (Cons r rs)
  let ?f = "safe_write_csv e i
      (make_record r (get_structured_content (requests_get e) (link r))) tbl"
  have "set (rows_of tbl) \<subseteq> set (rows_of ?f)"
    by (auto simp: safe_write_csv_def rows_of_simps)
  also have "\<dots> \<subseteq> set (rows_of (append_rows e (Suc i) rs ?f))"
    by (rule Cons.IH)
  finally show ?case by (simp add: Let_def)
qed

lemma crawl_keeps_rows:
  "crawl_ptt_post_content e df tbl = Inr tbl' \<Longrightarrow> set (rows_of tbl) \<subseteq> set (rows_of tbl')"
  using append_rows_keeps_rows [of tbl e 0]
  by (auto simp: crawl_ptt_post_content_def split: sum.splits)

lemma existing_links_subset:
  "set (existing_links e tbl) \<subseteq> {l \<in> link ` set (rows_of tbl). l \<notin> set NA_VALUES}"
  by (auto simp: existing_links_def rows_of_def split: option.splits)

lemma existing_links_readable:
  "\<not> read_fails e \<Longrightarrow>
   set (existing_links e tbl) = {l \<in> link ` set (rows_of tbl). l \<notin> set NA_VALUES}"
  by (auto simp: existing_links_def rows_of_def split: option.splits)

lemma base_url_not_na: "startswith l BASE_URL \<Longrightarrow> l \<notin> set NA_VALUES"
  by (auto simp: startswith_def BASE_URL_def NA_VALUES_def ascii_def)

lemmas run_defs = crawl_ptt_post_content_def to_crawl_def existing_links_def
  safe_write_csv_def rows_of_simps Let_def env_ok_def env_write_fails_def env_read_fails_def
  get_structured_content_def safe_request_def web_down_def truthy_def

text \<open>
  C3, as the claim states it, fails when writes of the first run fail: the row is not in the
  table the first run leaves, and the second run fetches the listing again and appends
  it. Here the first run cannot write and leaves no table; the second run, on the same
  collection, appends one row.
\<close>

theorem second_run_after_failed_write_counterexample:
  "crawl_ptt_post_content (env_write_fails web_down) (Frame [post1]) None = Inr None
   \<and> crawl_ptt_post_content (env_ok web_down) (Frame [post1]) None
       = Inr (Some [make_record post1 None])
   \<and> length (rows_of (Some [make_record post1 None]))
       = length (rows_of (None :: content_row list option)) + 1"
  by (simp add: run_defs)

text \<open>
  C3, amended: for a qualifying listing collection whose links are under the base URL, as
  the Listing Scraper builds them: when every write of the first run succeeds and the
  second run can read the content table, the second run on the same collection with the
  table the first run produced finds no listing to fetch and appends no row; the table,
  and so its row count, is the same after run 2 as after run 1.
\<close>

theorem second_run_appends_nothing:
  assumes "\<forall>r\<in>set rows. startswith (link r) BASE_URL"
    and "\<forall>i. \<not> write_fails e1 i"
    and "\<not> read_fails e2"
    and "crawl_ptt_post_content e1 (Frame rows) tbl0 = Inr tbl1"
  shows "to_crawl (Frame rows) (existing_links e2 tbl1) = Inr []
     \<and> crawl_ptt_post_content e2 (Frame rows) tbl1 = Inr tbl1"
proof -
  let ?tc = "filter (\<lambda>r. link r \<notin> set (existing_links e1 tbl0)) rows"
  let ?mk = "\<lambda>r. make_record r (get_structured_content (requests_get e1) (link r))"
  have "tbl1 = append_rows e1 0 ?tc tbl0"
    using assms(4) by (simp add: crawl_ptt_post_content_def to_crawl_def)
  then have rows1: "rows_of tbl1 = rows_of tbl0 @ map ?mk ?tc"
    using append_rows_all_written [OF assms(2)] by simp
  have seen: "link r \<in> set (existing_links e2 tbl1)" if r: "r \<in> set rows" for r
  proof -
    have na: "link r \<notin> set NA_VALUES"
      using assms(1) r base_url_not_na by blast
    have "link r \<in> link ` set (rows_of tbl1)"
    proof (cases "link r \<in> set (existing_links e1 tbl0)")
      case True
      then have "link r \<in> link ` set (rows_of tbl0)"
        using existing_links_subset [of e1 tbl0] by blast
      then show ?thesis by (auto simp: rows1)
    next
      case False
      then have "r \<in> set ?tc" using r by simp
      then have "?mk r \<in> set (rows_of tbl1)" by (simp add: rows1)
      then have "link (?mk r) \<in> link ` set (rows_of tbl1)" by (rule imageI)
      then show ?thesis by (simp only: link_make_record)
    qed
    then show ?thesis
      using na by (simp add: existing_links_readable [OF assms(3)])
  qed
  then have "filter (\<lambda>r. link r \<notin> set (existing_links e2 tbl1)) rows = []"
    by (simp add: filter_empty_conv)
  then have tc: "to_crawl (Frame rows) (existing_links e2 tbl1) = Inr []"
    by (simp add: to_crawl_def)
  then show ?thesis by (simp add: crawl_ptt_post_content_def)
qed

theorem second_run_appends_nothing_witness:
  "crawl_ptt_post_content (env_ok web_down) (Frame [post1]) None
     = Inr (Some [make_record post1 None])
   \<and> crawl_ptt_post_content (env_ok web_down) (Frame [post1]) (Some [make_record post1 None])
     = Inr (Some [make_record post1 None])"
proof -
  have 1: "crawl_ptt_post_content (env_ok web_down) (Frame [post1]) None
     = Inr (Some [make_record post1 None])"
    by (simp add: run_defs)
  have b: "\<forall>r\<in>set [post1]. startswith (link r) BASE_URL"
    by (simp add: post1_def startswith_def BASE_URL_def ascii_def)
  have w: "\<forall>i. \<not> write_fails (env_ok web_down) i" "\<not> read_fails (env_ok web_down)"
    by (simp_all add: env_ok_def)
  show ?thesis
    using second_run_appends_nothing [OF b w 1] 1 by simp
qed

text \<open>
  C10, as the claim states it, fails for a later run that cannot read the content table:
  its dedup set is empty, so the listing whose empty row is in the table is fetched again
  and a second row is appended for it.
\<close>

theorem refetched_after_read_failure_counterexample:
  "to_crawl (Frame [post1])
     (existing_links (env_read_fails web_down) (Some [make_record post1 None]))
     = Inr [post1]
   \<and> crawl_ptt_post_content (env_read_fails web_down) (Frame [post1])
       (Some [make_record post1 None])
     = Inr (Some [make_record post1 None, make_record post1 None])"
  by (simp add: run_defs)

text \<open>
  C10, amended: when fetching or parsing the content of an unseen listing fails entirely
  and the writes of the run succeed, the persister still appends one row for each unseen
  listing, and the row of that listing has empty source, content and urls fields. The
  listing's link (under the base URL) is then in the dedup set of every later run that can
  read a table holding that row, and such a run does not fetch the post again.
\<close>

theorem failed_fetch_still_appends_row:
  assumes "get_structured_content (requests_get e) (link r) = None"
    and "r \<in> set rows"
    and "link r \<notin> set (existing_links e tbl)"
    and "\<forall>i. \<not> write_fails e i"
    and "startswith (link r) BASE_URL"
  shows "\<exists>tbl'. crawl_ptt_post_content e (Frame rows) tbl = Inr tbl'
     \<and> rows_of tbl' = rows_of tbl
          @ map (\<lambda>x. make_record x (get_structured_content (requests_get e) (link x)))
              (filter (\<lambda>x. link x \<notin> set (existing_links e tbl)) rows)
     \<and> \<lparr>title = title r, date = date r, link = link r, nrec = nrec r,
         source = [], content = [], urls = []\<rparr> \<in> set (rows_of tbl')
     \<and> (\<forall>e2 rows2 tbl2. \<not> read_fails e2 \<and> set (rows_of tbl') \<subseteq> set (rows_of tbl2) \<longrightarrow>
          (\<exists>tc. to_crawl (Frame rows2) (existing_links e2 tbl2) = Inr tc
                \<and> link r \<notin> link ` set tc))"
proof -
  let ?tc = "filter (\<lambda>x. link x \<notin> set (existing_links e tbl)) rows"
  let ?mk = "\<lambda>x. make_record x (get_structured_content (requests_get e) (link x))"
  let ?row = "\<lparr>title = title r, date = date r, link = link r, nrec = nrec r,
         source = [], content = [], urls = []\<rparr>"
  let ?t = "append_rows e 0 ?tc tbl"
  have run: "crawl_ptt_post_content e (Frame rows) tbl = Inr ?t"
    by (simp add: crawl_ptt_post_content_def to_crawl_def)
  have rows: "rows_of ?t = rows_of tbl @ map ?mk ?tc"
    using append_rows_all_written [OF assms(4)] by simp
  have rtc: "r \<in> set ?tc" using assms(2,3) by simp
  have mk: "?row = ?mk r" by (simp add: assms(1) make_record_def)
  have "?row \<in> ?mk ` set ?tc" using mk rtc by (rule image_eqI)
  then have mem: "?row \<in> set (rows_of ?t)" by (simp add: rows)
  have later: "\<exists>tc. to_crawl (Frame rows2) (existing_links e2 tbl2) = Inr tc
                \<and> link r \<notin> link ` set tc"
    if h: "\<not> read_fails e2 \<and> set (rows_of ?t) \<subseteq> set (rows_of tbl2)" for e2 rows2 tbl2
  proof -
    have "?row \<in> set (rows_of tbl2)" using h mem by blast
    then have "link ?row \<in> link ` set (rows_of tbl2)" by (rule imageI)
    then have "link r \<in> link ` set (rows_of tbl2)" by simp
    then have "link r \<in> set (existing_links e2 tbl2)"
      using h base_url_not_na [OF assms(5)] by (simp add: existing_links_readable)
    then show ?thesis by (auto simp: to_crawl_def)
  qed
  show ?thesis
  proof (rule exI [of _ ?t], intro conjI allI impI)
    show "crawl_ptt_post_content e (Frame rows) tbl = Inr ?t" by (rule run)
    show "rows_of ?t = rows_of tbl @ map ?mk ?tc" by (rule rows)
    show "?row \<in> set (rows_of ?t)" by (rule mem)
    fix e2 :: env and rows2 :: "listing list" and tbl2 :: "content_row list option"
    assume "\<not> read_fails e2 \<and> set (rows_of ?t) \<subseteq> set (rows_of tbl2)"
    then show "\<exists>tc. to_crawl (Frame rows2) (existing_links e2 tbl2) = Inr tc
                \<and> link r \<notin> link ` set tc"
      by (rule later)
  qed
qed

theorem failed_fetch_still_appends_row_witness:
  "crawl_ptt_post_content (env_ok web_down) (Frame [post1]) None
     = Inr (Some [\<lparr>title = title post1, date = date post1, link = link post1,
                    nrec = nrec post1, source = [], content = [], urls = []\<rparr>])
   \<and> to_crawl (Frame [post1])
       (existing_links (env_ok web_down)
          (Some [\<lparr>title = title post1, date = date post1, link = link post1,
                    nrec = nrec post1, source = [], content = [], urls = []\<rparr>]))
     = Inr []"
proof -
  let ?row = "\<lparr>title = title post1, date = date post1, link = link post1,
                    nrec = nrec post1, source = [], content = [], urls = []\<rparr>"
  have f: "get_structured_content (requests_get (env_ok web_down)) (link post1) = None"
    by (simp add: run_defs)
  have u: "link post1 \<notin> set (existing_links (env_ok web_down) None)"
    by (simp add: existing_links_def)
  have w: "\<forall>i. \<not> write_fails (env_ok web_down) i"
    by (simp add: env_ok_def)
  have b: "startswith (link post1) BASE_URL"
    by (simp add: post1_def startswith_def BASE_URL_def ascii_def)
  have m: "post1 \<in> set [post1]" by simp
  obtain tbl' where run: "crawl_ptt_post_content (env_ok web_down) (Frame [post1]) None = Inr tbl'"
    and mem: "?row \<in> set (rows_of tbl')"
    and later: "\<forall>e2 rows2 tbl2. \<not> read_fails e2 \<and> set (rows_of tbl') \<subseteq> set (rows_of tbl2) \<longrightarrow>
          (\<exists>tc. to_crawl (Frame rows2) (existing_links e2 tbl2) = Inr tc
                \<and> link post1 \<notin> link ` set tc)"
    using failed_fetch_still_appends_row [OF f m u w b] by blast
  have "crawl_ptt_post_content (env_ok web_down) (Frame [post1]) None = Inr (Some [?row])"
    by (simp add: run_defs make_record_def)
  then have t: "tbl' = Some [?row]" using run by simp
  have "\<not> read_fails (env_ok web_down) \<and> set (rows_of tbl') \<subseteq> set (rows_of (Some [?row]))"
    by (simp add: t env_ok_def rows_of_simps)
  then obtain tc where tc: "to_crawl (Frame [post1]) (existing_links (env_ok web_down) (Some [?row]))
      = Inr tc" and n: "link post1 \<notin> link ` set tc"
    using later by blast
  have "tc = [] \<or> tc = [post1]"
    using tc by (auto simp: to_crawl_def split: if_splits)
  then have "tc = []" using n by auto
  then show ?thesis using tc run t by simp
qed


end
